theory Spec2Isabelle
  imports Main "HOL-Library.Word"
begin

section \<open>The command-line front end of icnsutil (\<^verbatim>\<open>src/icnsutil/cli.py\<close>)\<close>

text \<open>
  The module \<^verbatim>\<open>cli.py\<close> holds the sub-commands \<^verbatim>\<open>cli_compose\<close>,
  \<^verbatim>\<open>cli_update\<close>, \<^verbatim>\<open>cli_convert\<close> and the generator
  \<^verbatim>\<open>enum_with_stdin\<close>. Each sub-command is embedded as a function from the
  parsed arguments and the part of the outside world it touches (the file system and the
  lines printed to the standard error stream) to an outcome: a normal return or a raised
  exception, each with the world as it is left.

  Python strings are lists of \<^typ>\<open>char\<close> (code points below 256), byte strings are
  lists of 8-bit words.
\<close>

subsection \<open>Bytes, files and the world\<close>

type_synonym byte = "8 word"
type_synonym bytes = "byte list"
type_synonym path = string

datatype node = File bytes | Dir

type_synonym filesystem = "path \<rightharpoonup> node"

record world =
  fs :: filesystem
  stderr :: "string list"

text \<open>The exceptions a sub-command can end with. \<open>CoreError\<close> wraps the failures of the
  codecs and the registry that \<^verbatim>\<open>cli.py\<close> only calls (section 7 of the
  specification); \<open>DuplicateEntryError\<close> is the duplicate guard of \<^verbatim>\<open>add_media\<close>.\<close>

datatype core_error =
    FormatError | TruncatedStreamError | OverrunError | SizeMismatchError
  | UnknownTagError | AmbiguousKeyError

datatype error =
    ArgumentTypeError string
  | ValueError
  | FileNotFoundError path
  | IsADirectoryError path
  | DuplicateEntryError
  | CoreError core_error

datatype outcome = Returned world | Raised error world

fun world_of :: "outcome \<Rightarrow> world" where
  "world_of (Returned w) = w"
| "world_of (Raised e w) = w"

text \<open>\<^verbatim>\<open>os.path.exists\<close> and \<^verbatim>\<open>os.path.isfile\<close>.\<close>

definition path_exists :: "filesystem \<Rightarrow> path \<Rightarrow> bool" where
  "path_exists f p = (case f p of None \<Rightarrow> False | Some n \<Rightarrow> True)"

definition path_isfile :: "filesystem \<Rightarrow> path \<Rightarrow> bool" where
  "path_isfile f p = (case f p of Some (File b) \<Rightarrow> True | _ \<Rightarrow> False)"

text \<open>\<^verbatim>\<open>open(p, 'rb').read()\<close>: the content of a regular file.\<close>

definition read_file :: "filesystem \<Rightarrow> path \<Rightarrow> error + bytes" where
  "read_file f p =
     (case f p of
        None \<Rightarrow> Inl (FileNotFoundError p)
      | Some Dir \<Rightarrow> Inl (IsADirectoryError p)
      | Some (File b) \<Rightarrow> Inr b)"

text \<open>\<^verbatim>\<open>open(p, 'wb')\<close> creates the file or truncates it, and refuses a directory;
  \<^verbatim>\<open>fp.write(data)\<close> appends to what the open file holds. The file system is a
  flat map from paths to nodes: a path bound to nothing can always be created, and
  permissions and parent directories are not tracked.\<close>

definition open_wb :: "filesystem \<Rightarrow> path \<Rightarrow> error + filesystem" where
  "open_wb f p =
     (case f p of
        Some Dir \<Rightarrow> Inl (IsADirectoryError p)
      | _ \<Rightarrow> Inr (f(p \<mapsto> File [])))"

definition fp_write :: "filesystem \<Rightarrow> path \<Rightarrow> bytes \<Rightarrow> filesystem" where
  "fp_write f p data =
     (case f p of
        Some (File old) \<Rightarrow> f(p \<mapsto> File (old @ data))
      | _ \<Rightarrow> f)"

text \<open>\<^verbatim>\<open>print(line, file=sys.stderr)\<close>.\<close>

definition print_stderr :: "string \<Rightarrow> world \<Rightarrow> world" where
  "print_stderr line w = w\<lparr>stderr := stderr w @ [line]\<rparr>"

subsection \<open>Library functions on strings\<close>

text \<open>\<^verbatim>\<open>str.rfind\<close> for a one-character needle: the last index of the character,
  or -1.\<close>

fun rfind_from :: "char \<Rightarrow> string \<Rightarrow> int \<Rightarrow> int \<Rightarrow> int" where
  "rfind_from c [] i found = found"
| "rfind_from c (x # xs) i found = rfind_from c xs (i + 1) (if x = c then i else found)"

definition rfind :: "string \<Rightarrow> char \<Rightarrow> int" where
  "rfind p c = rfind_from c p 0 (- 1)"

text \<open>\<^verbatim>\<open>os.path.splitext\<close> (POSIX: separator \<^verbatim>\<open>/\<close>, no alternative separator),
  as \<^verbatim>\<open>genericpath._splitext\<close> computes it: the extension starts at the last dot
  of the last path component, unless only dots precede it in that component.

  \<^verbatim>\<open>
  sepIndex = p.rfind(sep)
  dotIndex = p.rfind(extsep)
  if dotIndex > sepIndex:
      filenameIndex = sepIndex + 1
      while filenameIndex < dotIndex:
          if p[filenameIndex:filenameIndex+1] != extsep:
              return p[:dotIndex], p[dotIndex:]
          filenameIndex += 1
  return p, p[:0]
  \<close>\<close>

function splitext_loop :: "string \<Rightarrow> nat \<Rightarrow> nat \<Rightarrow> string \<times> string" where
  "splitext_loop p filenameIndex dotIndex =
     (if filenameIndex < dotIndex then
        (if p ! filenameIndex \<noteq> CHR ''.'' then (take dotIndex p, drop dotIndex p)
         else splitext_loop p (filenameIndex + 1) dotIndex)
      else (p, []))"
  by pat_completeness auto
termination
  by (relation "measure (\<lambda>(p, filenameIndex, dotIndex). dotIndex - filenameIndex)") auto

definition splitext :: "path \<Rightarrow> string \<times> string" where
  "splitext p =
     (let sepIndex = rfind p CHR ''/'';
          dotIndex = rfind p CHR ''.''
      in if dotIndex > sepIndex then splitext_loop p (nat (sepIndex + 1)) (nat dotIndex)
         else (p, []))"

text \<open>\<^verbatim>\<open>str.isspace\<close> on a code point below 256, and \<^verbatim>\<open>str.strip()\<close>.\<close>

definition isspace :: "char \<Rightarrow> bool" where
  "isspace c =
     (let n = (of_char c :: nat)
      in (9 \<le> n \<and> n \<le> 13) \<or> (28 \<le> n \<and> n \<le> 32) \<or> n = 133 \<or> n = 160)"

definition strip :: "string \<Rightarrow> string" where
  "strip s = rev (dropWhile isspace (rev (dropWhile isspace s)))"

text \<open>\<^verbatim>\<open>str.split(sep)\<close> for a one-character separator: every occurrence splits.\<close>

fun split_on :: "char \<Rightarrow> string \<Rightarrow> string list" where
  "split_on c [] = [[]]"
| "split_on c (x # xs) =
     (if x = c then [] # split_on c xs
      else (x # hd (split_on c xs)) # tl (split_on c xs))"

subsection \<open>\<^verbatim>\<open>enum_with_stdin\<close>\<close>

text \<open>
  \<^verbatim>\<open>
  def enum_with_stdin(file_arg: list) -> Iterator[str]:
      for x in file_arg:
          if x == '-':
              for line in sys.stdin.readlines():
                  yield line.strip()
          else:
              yield x
  \<close>
  The standard input is the list of the lines not yet read (each with its line end).
  \<^verbatim>\<open>sys.stdin.readlines()\<close> returns all of them and leaves the stream at its end.
  The model gives the sequence the generator yields when it is run to its end.\<close>

definition readlines :: "string list \<Rightarrow> string list \<times> string list" where
  "readlines sin = (sin, [])"

fun enum_with_stdin :: "string list \<Rightarrow> string list \<Rightarrow> string list" where
  "enum_with_stdin [] sin = []"
| "enum_with_stdin (x # file_arg) sin =
     (if x = ''-'' then
        (case readlines sin of
           (lines, sin') \<Rightarrow> map strip lines @ enum_with_stdin file_arg sin')
      else x # enum_with_stdin file_arg sin)"

subsection \<open>The collaborators of \<^verbatim>\<open>cli.py\<close>\<close>

text \<open>
  \<^verbatim>\<open>cli.py\<close> imports \<^verbatim>\<open>IcnsFile\<close>, \<^verbatim>\<open>IcnsType\<close> and
  \<^verbatim>\<open>ArgbImage\<close> from the package. Their data and the operations whose behaviour
  the specification fixes are modelled from it; the codecs and the registry themselves
  (parsing and serialising a container, resolving a key, decoding and encoding an image)
  are parameters, collected in the record \<open>core\<close>.
\<close>

text \<open>Modelled from the spec: the Pixel Buffer behind \<^verbatim>\<open>ArgbImage\<close> (section 3: width,
  height, per-pixel RGBA samples of 8 bits per channel, in row-major order).\<close>

type_synonym pixel = "byte \<times> byte \<times> byte \<times> byte"

record image =
  size' :: "nat \<times> nat"
  pixels :: "pixel list"

text \<open>Modelled from the spec: the invariant of a Pixel Buffer (section 3: one sample per
  pixel, width times height of them).\<close>

definition wf_image :: "image \<Rightarrow> bool" where
  "wf_image img = (length (pixels img) = fst (size' img) * snd (size' img))"

text \<open>Modelled from the spec: the R,G,B triple of one pixel (section 4.4, packing).\<close>

fun rgb_of :: "pixel \<Rightarrow> bytes" where
  "rgb_of (r, g, b, a) = [r, g, b]"

text \<open>Modelled from the spec: the alpha sample of one pixel (section 4.4, packing).\<close>

fun alpha_of :: "pixel \<Rightarrow> byte" where
  "alpha_of (r, g, b, a) = a"

text \<open>Modelled from the spec: \<^verbatim>\<open>ArgbImage.rgb_data\<close> (section 4.4, packing:
  interleaved 8-bit R,G,B triples for every pixel in row-major order).\<close>

definition rgb_data :: "image \<Rightarrow> bytes" where
  "rgb_data img = concat (map rgb_of (pixels img))"

text \<open>Modelled from the spec: \<^verbatim>\<open>ArgbImage.mask_data\<close> (section 4.4, packing: in a
  separate stream, one 8-bit alpha sample per pixel in the same order).\<close>

definition mask_data :: "image \<Rightarrow> bytes" where
  "mask_data img = map alpha_of (pixels img)"

text \<open>Modelled from the spec: the Archive behind \<^verbatim>\<open>IcnsFile\<close> (section 3: an ordered
  sequence of entries, each a type tag with its payload, and an optional lookup table that
  is present exactly when the archive was built or read with one; section 4.1: a
  lookup-table entry is parsed separately and is not a media entry).\<close>

type_synonym entry = "string \<times> bytes"

record archive =
  entries :: "entry list"
  toc :: bool

text \<open>Modelled from the spec: the type tags of the entries, in archive order (section 3:
  the tag is the key of an entry).\<close>

definition tags :: "archive \<Rightarrow> string list" where
  "tags icns = map fst (entries icns)"

text \<open>The parts of the package that \<^verbatim>\<open>cli.py\<close> reaches only through the classes
  above, as parameters: the container parser and serialiser, the registry
  (\<^verbatim>\<open>IcnsType.key_from_readable\<close>, and the tag and payload that
  \<^verbatim>\<open>add_media\<close> stores for a key, a file name and the bytes of the file), and the
  image decoders and encoders. Each may fail with an error of the core where the
  specification lets it.\<close>

record core =
  parse_icns :: "bytes \<Rightarrow> core_error + archive"
  serialize :: "archive \<Rightarrow> bool \<Rightarrow> bytes"
  key_from_readable :: "string \<Rightarrow> core_error + string"
  resolve_media :: "string option \<Rightarrow> path \<Rightarrow> bytes \<Rightarrow> core_error + entry"
  decode_image :: "path \<Rightarrow> bytes \<Rightarrow> core_error + image"
  decode_mask :: "image \<Rightarrow> path \<Rightarrow> bytes \<Rightarrow> core_error + image"
  png_data :: "image \<Rightarrow> core_error + bytes"
  argb_data :: "image \<Rightarrow> bytes"

text \<open>Modelled from the spec: \<^verbatim>\<open>IcnsFile()\<close>, the empty archive that composition
  starts from (section 3, lifecycle).\<close>

definition IcnsFile_empty :: archive where
  "IcnsFile_empty = \<lparr>entries = [], toc = False\<rparr>"

text \<open>Modelled from the spec: \<^verbatim>\<open>IcnsFile(file)\<close> (section 4.1, \<open>parse\<close>: the
  bytes of the file give an archive, or the call fails).\<close>

definition IcnsFile :: "core \<Rightarrow> filesystem \<Rightarrow> path \<Rightarrow> error + archive" where
  "IcnsFile c f file =
     (case read_file f file of
        Inl e \<Rightarrow> Inl e
      | Inr raw_bytes \<Rightarrow>
          (case parse_icns c raw_bytes of
             Inl e \<Rightarrow> Inl (CoreError e)
           | Inr icns \<Rightarrow> Inr icns))"

text \<open>Modelled from the spec: \<^verbatim>\<open>IcnsFile.has_toc\<close> (section 3: whether the archive
  was built or read with a lookup table).\<close>

definition has_toc :: "archive \<Rightarrow> bool" where
  "has_toc icns = toc icns"

text \<open>Modelled from the spec: removing the first entry that has the tag (section 4.1:
  \<open>remove_media\<close> removes at most one entry).\<close>

fun remove_entry :: "string \<Rightarrow> entry list \<Rightarrow> entry list" where
  "remove_entry tag [] = []"
| "remove_entry tag ((k, v) # es) = (if k = tag then es else (k, v) # remove_entry tag es)"

text \<open>Modelled from the spec: \<^verbatim>\<open>IcnsFile.remove_media\<close> (section 4.1: removes at most
  one entry; returns whether a removal occurred; a missing tag is a no-op returning
  false). The Python method mutates the archive; the model returns it with the flag.\<close>

definition remove_media :: "archive \<Rightarrow> string \<Rightarrow> bool \<times> archive" where
  "remove_media icns tag =
     (if tag \<in> set (tags icns)
      then (True, icns\<lparr>entries := remove_entry tag (entries icns)\<rparr>)
      else (False, icns))"

text \<open>Modelled from the spec: replacing, at its position, the first entry that has the tag
  (section 4.1: on force the old entry is replaced in place).\<close>

fun replace_entry :: "string \<Rightarrow> bytes \<Rightarrow> entry list \<Rightarrow> entry list" where
  "replace_entry tag payload [] = []"
| "replace_entry tag payload ((k, v) # es) =
     (if k = tag then (tag, payload) # es else (k, v) # replace_entry tag payload es)"

text \<open>Modelled from the spec: \<^verbatim>\<open>IcnsFile.add_media\<close> (section 4.1: the registry
  resolves the final type tag and the payload to store; \<open>DuplicateEntryError\<close> unless
  \<open>force\<close> or no existing entry shares the tag; on force the old entry is replaced in
  place, at the same position, rather than appended).\<close>

definition add_media ::
  "core \<Rightarrow> filesystem \<Rightarrow> archive \<Rightarrow> string option \<Rightarrow> path \<Rightarrow> bool \<Rightarrow> error + archive" where
  "add_media c f icns key file force =
     (case read_file f file of
        Inl e \<Rightarrow> Inl e
      | Inr file_data \<Rightarrow>
          (case resolve_media c key file file_data of
             Inl e \<Rightarrow> Inl (CoreError e)
           | Inr (tag, payload) \<Rightarrow>
               if tag \<in> set (tags icns) then
                 (if force
                  then Inr (icns\<lparr>entries := replace_entry tag payload (entries icns)\<rparr>)
                  else Inl DuplicateEntryError)
               else Inr (icns\<lparr>entries := entries icns @ [(tag, payload)]\<rparr>)))"

text \<open>Modelled from the spec: \<^verbatim>\<open>IcnsFile.write\<close> (sections 4.1 and 7: the full output
  buffer is built before anything is persisted).\<close>

definition IcnsFile_write :: "core \<Rightarrow> archive \<Rightarrow> path \<Rightarrow> bool \<Rightarrow> world \<Rightarrow> outcome" where
  "IcnsFile_write c icns fname with_toc w =
     (let buffer = serialize c icns with_toc
      in case open_wb (fs w) fname of
           Inl e \<Rightarrow> Raised e w
         | Inr f \<Rightarrow> Returned (w\<lparr>fs := fp_write f fname buffer\<rparr>))"

text \<open>\<^verbatim>\<open>'"{}"'.format(s)\<close>.\<close>

definition quoted :: "string \<Rightarrow> string" where
  "quoted s = [CHR 0x22] @ s @ [CHR 0x22]"

subsection \<open>\<^verbatim>\<open>cli_compose\<close>\<close>

text \<open>
  \<^verbatim>\<open>
  def cli_compose(args: ArgParams) -> None:
      dest = args.target
      if not os.path.splitext(dest)[1]:
          dest += '.icns'  # for the lazy people
      if not args.force and os.path.exists(dest):
          print('File "{}" already exists. Force overwrite with -f.'.format(dest),
                file=sys.stderr)
          return
      img = IcnsFile()
      for x in enum_with_stdin(args.source):
          img.add_media(file=x)
      img.write(dest, toc=not args.no_toc)
  \<close>\<close>

record compose_args =
  target :: string
  force :: bool
  no_toc :: bool
  source :: "string list"

definition compose_dest :: "string \<Rightarrow> path" where
  "compose_dest tgt = (if snd (splitext tgt) = [] then tgt @ ''.icns'' else tgt)"

definition exists_message :: "path \<Rightarrow> string" where
  "exists_message dest = ''File '' @ quoted dest @ '' already exists. Force overwrite with -f.''"

fun compose_loop :: "core \<Rightarrow> filesystem \<Rightarrow> string list \<Rightarrow> archive \<Rightarrow> error + archive" where
  "compose_loop c f [] img = Inr img"
| "compose_loop c f (x # xs) img =
     (case add_media c f img None x False of
        Inl e \<Rightarrow> Inl e
      | Inr img' \<Rightarrow> compose_loop c f xs img')"

definition cli_compose :: "core \<Rightarrow> compose_args \<Rightarrow> string list \<Rightarrow> world \<Rightarrow> outcome" where
  "cli_compose c args sin w =
     (let dest = compose_dest (target args)
      in if \<not> force args \<and> path_exists (fs w) dest
         then Returned (print_stderr (exists_message dest) w)
         else
           (case compose_loop c (fs w) (enum_with_stdin (source args) sin) IcnsFile_empty of
              Inl e \<Rightarrow> Raised e w
            | Inr img \<Rightarrow> IcnsFile_write c img dest (\<not> no_toc args) w))"

subsection \<open>\<^verbatim>\<open>cli_update\<close>\<close>

text \<open>
  \<^verbatim>\<open>
  def cli_update(args: ArgParams) -> None:
      icns = IcnsFile(args.file)
      has_changes = False
      for x in args.rm or []:
          has_changes |= icns.remove_media(IcnsType.key_from_readable(x))
      for key_val in args.set or []:
          def fail():
              raise ArgumentTypeError(
                  'Expected arg format KEY=FILE - got "{}"'.format(key_val))
          if '=' not in key_val:
              fail()
          key, val = key_val.split('=', )
          if not val:
              fail()
          if not os.path.isfile(val):
              raise ArgumentTypeError('File does not exist "{}"'.format(val))
          icns.add_media(IcnsType.key_from_readable(key), file=val, force=True)
          has_changes = True
      if has_changes or args.output:
          icns.write(args.output or args.file, toc=icns.has_toc())
  \<close>
  The options \<^verbatim>\<open>-rm\<close>, \<^verbatim>\<open>-set\<close> and \<^verbatim>\<open>--output\<close> are \<^verbatim>\<open>None\<close>
  when they are not given. Unpacking \<^verbatim>\<open>key, val\<close> from a split with more than
  two parts raises \<^verbatim>\<open>ValueError\<close>.\<close>

record update_args =
  file' :: path
  output' :: "string option"
  rm :: "string list option"
  set' :: "string list option"

definition or_empty :: "'a list option \<Rightarrow> 'a list" where
  "or_empty xs = (case xs of None \<Rightarrow> [] | Some ys \<Rightarrow> ys)"

definition truthy :: "string option \<Rightarrow> bool" where
  "truthy s = (case s of None \<Rightarrow> False | Some t \<Rightarrow> t \<noteq> [])"

definition or_else :: "string option \<Rightarrow> string \<Rightarrow> string" where
  "or_else s d = (case s of None \<Rightarrow> d | Some t \<Rightarrow> if t = [] then d else t)"

definition fail :: "string \<Rightarrow> error" where
  "fail key_val = ArgumentTypeError (''Expected arg format KEY=FILE - got '' @ quoted key_val)"

fun update_rm_loop :: "core \<Rightarrow> string list \<Rightarrow> archive \<Rightarrow> bool \<Rightarrow> error + (archive \<times> bool)" where
  "update_rm_loop c [] icns has_changes = Inr (icns, has_changes)"
| "update_rm_loop c (x # xs) icns has_changes =
     (case key_from_readable c x of
        Inl e \<Rightarrow> Inl (CoreError e)
      | Inr k \<Rightarrow>
          (case remove_media icns k of
             (removed, icns') \<Rightarrow> update_rm_loop c xs icns' (has_changes \<or> removed)))"

fun update_set_loop ::
  "core \<Rightarrow> filesystem \<Rightarrow> string list \<Rightarrow> archive \<Rightarrow> bool \<Rightarrow> error + (archive \<times> bool)" where
  "update_set_loop c f [] icns has_changes = Inr (icns, has_changes)"
| "update_set_loop c f (key_val # rest) icns has_changes =
     (if CHR ''='' \<notin> set key_val then Inl (fail key_val)
      else
        (case split_on CHR ''='' key_val of
           [key, val] \<Rightarrow>
             if val = [] then Inl (fail key_val)
             else if \<not> path_isfile f val
               then Inl (ArgumentTypeError (''File does not exist '' @ quoted val))
             else
               (case key_from_readable c key of
                  Inl e \<Rightarrow> Inl (CoreError e)
                | Inr k \<Rightarrow>
                    (case add_media c f icns (Some k) val True of
                       Inl e \<Rightarrow> Inl e
                     | Inr icns' \<Rightarrow> update_set_loop c f rest icns' True))
         | _ \<Rightarrow> Inl ValueError))"

text \<open>The two loops of \<^verbatim>\<open>cli_update\<close>, one after the other: the archive they
  leave and the flag \<^verbatim>\<open>has_changes\<close>.\<close>

definition update_media ::
  "core \<Rightarrow> filesystem \<Rightarrow> update_args \<Rightarrow> archive \<Rightarrow> error + (archive \<times> bool)" where
  "update_media c f args icns =
     (case update_rm_loop c (or_empty (rm args)) icns False of
        Inl e \<Rightarrow> Inl e
      | Inr (icns1, changes1) \<Rightarrow> update_set_loop c f (or_empty (set' args)) icns1 changes1)"

definition cli_update :: "core \<Rightarrow> update_args \<Rightarrow> world \<Rightarrow> outcome" where
  "cli_update c args w =
     (case IcnsFile c (fs w) (file' args) of
        Inl e \<Rightarrow> Raised e w
      | Inr icns \<Rightarrow>
          (case update_media c (fs w) args icns of
             Inl e \<Rightarrow> Raised e w
           | Inr (icns2, has_changes) \<Rightarrow>
               if has_changes \<or> truthy (output' args)
               then IcnsFile_write c icns2 (or_else (output' args) (file' args))
                      (has_toc icns2) w
               else Returned w))"

subsection \<open>\<^verbatim>\<open>cli_convert\<close>\<close>

text \<open>
  \<^verbatim>\<open>
  def cli_convert(args: ArgParams) -> None:
      img = ArgbImage(file=args.source)
      if args.mask:
          img.load_mask(file=args.mask)
      dest = args.target
      if args.target in ['png', 'argb', 'rgb']:
          dest = args.source + '.' + args.target
      ext = os.path.splitext(dest)[1]
      if ext == '.png':
          img.write_png(dest)
      elif ext == '.argb':
          with open(dest, 'wb') as fp:
              fp.write(img.argb_data())
      elif ext == '.rgb':
          with open(dest, 'wb') as fp:
              if not args.raw and img.size == (128, 128):
                  fp.write(b'\x00\x00\x00\x00')  # fix for it32
              fp.write(img.rgb_data())
          with open(dest + '.mask', 'wb') as fp:
              fp.write(img.mask_data())
      else:
          print('Could not determine target image-type for file "{}".'.format(
              dest), file=sys.stderr)
  \<close>\<close>

record convert_args =
  raw :: bool
  target' :: string
  source' :: path
  mask :: "string option"

text \<open>Modelled from the spec: \<^verbatim>\<open>ArgbImage(file=...)\<close> (section 4.5: the file is
  decoded into a pixel buffer, its dimensions read from the image itself).\<close>

definition ArgbImage :: "core \<Rightarrow> filesystem \<Rightarrow> path \<Rightarrow> error + image" where
  "ArgbImage c f src =
     (case read_file f src of
        Inl e \<Rightarrow> Inl e
      | Inr file_data \<Rightarrow>
          (case decode_image c src file_data of
             Inl e \<Rightarrow> Inl (CoreError e)
           | Inr img \<Rightarrow> Inr img))"

text \<open>Modelled from the spec: \<^verbatim>\<open>ArgbImage.load_mask\<close> (section 4.4, unpacking: the
  mask file gives the alpha samples of the image, or the call fails).\<close>

definition load_mask :: "core \<Rightarrow> filesystem \<Rightarrow> image \<Rightarrow> path \<Rightarrow> error + image" where
  "load_mask c f img m =
     (case read_file f m of
        Inl e \<Rightarrow> Inl e
      | Inr mask_bytes \<Rightarrow>
          (case decode_mask c img m mask_bytes of
             Inl e \<Rightarrow> Inl (CoreError e)
           | Inr img' \<Rightarrow> Inr img'))"

text \<open>The first three lines of \<^verbatim>\<open>cli_convert\<close>: the source image, with the mask
  loaded into it when one is given.\<close>

definition load_source :: "core \<Rightarrow> filesystem \<Rightarrow> convert_args \<Rightarrow> error + image" where
  "load_source c f args =
     (case ArgbImage c f (source' args) of
        Inl e \<Rightarrow> Inl e
      | Inr img \<Rightarrow>
          (case mask args of
             None \<Rightarrow> Inr img
           | Some m \<Rightarrow> if m = [] then Inr img else load_mask c f img m))"

definition convert_dest :: "convert_args \<Rightarrow> path" where
  "convert_dest args =
     (if target' args \<in> set [''png'', ''argb'', ''rgb'']
      then source' args @ ''.'' @ target' args
      else target' args)"

definition undetermined_message :: "path \<Rightarrow> string" where
  "undetermined_message dest =
     ''Could not determine target image-type for file '' @ quoted dest @ ''.''"

text \<open>Modelled from the spec: \<^verbatim>\<open>ArgbImage.write_png\<close> (section 4.5: the pixel buffer
  is encoded as a raster image, which is written to the path).\<close>

definition write_png :: "core \<Rightarrow> image \<Rightarrow> path \<Rightarrow> world \<Rightarrow> outcome" where
  "write_png c img dest w =
     (case png_data c img of
        Inl e \<Rightarrow> Raised (CoreError e) w
      | Inr png_bytes \<Rightarrow>
          (case open_wb (fs w) dest of
             Inl e \<Rightarrow> Raised e w
           | Inr f \<Rightarrow> Returned (w\<lparr>fs := fp_write f dest png_bytes\<rparr>)))"

text \<open>The three writing branches of \<^verbatim>\<open>cli_convert\<close>.\<close>

definition write_argb :: "core \<Rightarrow> image \<Rightarrow> path \<Rightarrow> world \<Rightarrow> outcome" where
  "write_argb c img dest w =
     (case open_wb (fs w) dest of
        Inl e \<Rightarrow> Raised e w
      | Inr f \<Rightarrow> Returned (w\<lparr>fs := fp_write f dest (argb_data c img)\<rparr>))"

definition write_rgb :: "bool \<Rightarrow> image \<Rightarrow> path \<Rightarrow> world \<Rightarrow> outcome" where
  "write_rgb raw_flag img dest w =
     (case open_wb (fs w) dest of
        Inl e \<Rightarrow> Raised e w
      | Inr f1 \<Rightarrow>
          (let f2 = (if \<not> raw_flag \<and> size' img = (128, 128)
                     then fp_write f1 dest [0, 0, 0, 0] else f1);
               f3 = fp_write f2 dest (rgb_data img)
           in case open_wb f3 (dest @ ''.mask'') of
                Inl e \<Rightarrow> Raised e (w\<lparr>fs := f3\<rparr>)
              | Inr f4 \<Rightarrow> Returned (w\<lparr>fs := fp_write f4 (dest @ ''.mask'') (mask_data img)\<rparr>)))"

definition cli_convert :: "core \<Rightarrow> convert_args \<Rightarrow> world \<Rightarrow> outcome" where
  "cli_convert c args w =
     (case load_source c (fs w) args of
        Inl e \<Rightarrow> Raised e w
      | Inr img \<Rightarrow>
          (let dest = convert_dest args;
               ext = snd (splitext dest)
           in if ext = ''.png'' then write_png c img dest w
              else if ext = ''.argb'' then write_argb c img dest w
              else if ext = ''.rgb'' then write_rgb (raw args) img dest w
              else Returned (print_stderr (undetermined_message dest) w)))"

subsection \<open>A small instance to run the model on\<close>

text \<open>A toy container format, registry and image decoder, and a file system holding a
  few files: concrete values for the parameters, on which the sub-commands compute.\<close>

definition toy_parse :: "bytes \<Rightarrow> core_error + archive" where
  "toy_parse b =
     (case b of
        [] \<Rightarrow> Inl FormatError
      | t # payload \<Rightarrow>
          Inr \<lparr>entries = zip [''icp4'', ''icp5'', ''icp6''] (map (\<lambda>v. [v]) payload), toc = (t \<noteq> 0)\<rparr>)"

definition toy_serialize :: "archive \<Rightarrow> bool \<Rightarrow> bytes" where
  "toy_serialize icns with_toc = (if with_toc then 1 else 0) # concat (map snd (entries icns))"

definition toy_resolve :: "string option \<Rightarrow> path \<Rightarrow> bytes \<Rightarrow> core_error + entry" where
  "toy_resolve key p file_data =
     (case key of
        Some k \<Rightarrow> Inr (k, file_data)
      | None \<Rightarrow>
          (case file_data of
             [] \<Rightarrow> Inl UnknownTagError
           | v # rest \<Rightarrow> Inr (if v = 0 then ''icp4'' else ''icp5'', file_data)))"

definition toy_decode :: "path \<Rightarrow> bytes \<Rightarrow> core_error + image" where
  "toy_decode p b =
     (case b of
        wd # ht # v # rest \<Rightarrow>
          Inr \<lparr>size' = (unat wd, unat ht), pixels = replicate (unat wd * unat ht) (v, v, v, 255)\<rparr>
      | _ \<Rightarrow> Inl FormatError)"

definition toy_core :: core where
  "toy_core =
     \<lparr>parse_icns = toy_parse, serialize = toy_serialize, key_from_readable = Inr,
      resolve_media = toy_resolve, decode_image = toy_decode,
      decode_mask = (\<lambda>img p b. Inr img), png_data = (\<lambda>img. Inr (rgb_data img)),
      argb_data = (\<lambda>img. mask_data img @ rgb_data img)\<rparr>"

definition toy_fs :: filesystem where
  "toy_fs =
     [''a.icns'' \<mapsto> File [1, 10, 20], ''plain.icns'' \<mapsto> File [0, 30],
      ''x.png'' \<mapsto> File [0, 7],
      ''big.png'' \<mapsto> File [128, 128, 9], ''small.png'' \<mapsto> File [2, 1, 9],
      ''outdir'' \<mapsto> Dir]"

definition toy_world :: world where
  "toy_world = \<lparr>fs = toy_fs, stderr = []\<rparr>"

definition big_image :: image where
  "big_image = \<lparr>size' = (128, 128), pixels = replicate (128 * 128) (9, 9, 9, 255)\<rparr>"

definition small_image :: image where
  "small_image = \<lparr>size' = (2, 1), pixels = [(9, 9, 9, 255), (9, 9, 9, 255)]\<rparr>"

text \<open>The archive that composing \<^verbatim>\<open>x.png\<close> and \<^verbatim>\<open>big.png\<close> builds.\<close>

definition composed :: archive where
  "composed = \<lparr>entries = [(''icp4'', [0, 7]), (''icp5'', [128, 128, 9])], toc = False\<rparr>"

text \<open>The archives that the toy parser reads from the two container files.\<close>

definition toy_archive :: archive where
  "toy_archive = \<lparr>entries = [(''icp4'', [10]), (''icp5'', [20])], toc = True\<rparr>"

definition plain_archive :: archive where
  "plain_archive = \<lparr>entries = [(''icp4'', [30])], toc = False\<rparr>"

subsection \<open>What the generator is claimed to yield\<close>

text \<open>The statement of claim C8, in its own words, to compare \<^verbatim>\<open>enum_with_stdin\<close>
  with: the argument at position \<open>i\<close> contributes itself when it is not
  \<^verbatim>\<open>-\<close>, and the stripped lines read from the standard input when it is. The
  lines a read returns at position \<open>i\<close> are all the lines of the input when no earlier
  argument was \<^verbatim>\<open>-\<close>, and none when an earlier read has taken them.\<close>

definition stdin_lines_at :: "string list \<Rightarrow> nat \<Rightarrow> string list \<Rightarrow> string list" where
  "stdin_lines_at file_arg i sin = (if ''-'' \<in> set (take i file_arg) then [] else sin)"

definition yields_at :: "string list \<Rightarrow> string list \<Rightarrow> nat \<Rightarrow> string list" where
  "yields_at file_arg sin i =
     (if file_arg ! i = ''-'' then map strip (stdin_lines_at file_arg i sin) else [file_arg ! i])"

subsection \<open>The value of a \<^verbatim>\<open>-set\<close> argument\<close>

text \<open>Claim C3 speaks of the value after the \<^verbatim>\<open>=\<close> of an argument
  \<^verbatim>\<open>KEY=FILE\<close>: what follows its first \<^verbatim>\<open>=\<close>.\<close>

definition set_value :: "string \<Rightarrow> string" where
  "set_value key_val = tl (dropWhile (\<lambda>ch. ch \<noteq> CHR ''='') key_val)"


subsection \<open>What a filename extension is\<close>

text \<open>Claim C9 speaks of a target that has a filename extension. In its words, not those
  of \<^verbatim>\<open>os.path.splitext\<close>: the last component of the path, its leading dots
  aside, contains a dot.\<close>

definition last_component :: "path \<Rightarrow> string" where
  "last_component p = rev (takeWhile (\<lambda>ch. ch \<noteq> CHR ''/'') (rev p))"

definition has_extension :: "path \<Rightarrow> bool" where
  "has_extension p = (CHR ''.'' \<in> set (dropWhile (\<lambda>ch. ch = CHR ''.'') (last_component p)))"

subsection \<open>Well-formed \<^verbatim>\<open>-set\<close> arguments\<close>




section \<open>Properties\<close>

subsection \<open>Files and pixel data\<close>

lemma open_wb_Inr: "f p \<noteq> Some Dir \<Longrightarrow> open_wb f p = Inr (f(p \<mapsto> File []))"
  by (auto simp: open_wb_def split: option.splits node.splits)

lemma fp_write_fresh: "fp_write (f(p \<mapsto> File old)) p data = f(p \<mapsto> File (old @ data))"
  by (simp add: fp_write_def)

lemma mask_path_neq: "dest @ ''.mask'' \<noteq> dest"
  by simp

lemma length_rgb_data: "length (rgb_data img) = 3 * length (pixels img)"
proof -
  have "length (concat (map rgb_of ps)) = 3 * length ps" for ps
    by (induction ps) auto
  then show ?thesis by (simp add: rgb_data_def)
qed

lemma write_rgb_dest:
  assumes "fs w dest \<noteq> Some Dir"
  shows "fs (world_of (write_rgb r img dest w)) dest
           = Some (File ((if \<not> r \<and> size' img = (128, 128) then [0, 0, 0, 0] else []) @ rgb_data img))"
  using assms
  by (auto simp: write_rgb_def open_wb_Inr fp_write_fresh Let_def open_wb_def fp_write_def split: option.splits node.splits)

lemma write_rgb_ok:
  assumes "fs w dest \<noteq> Some Dir" "fs w (dest @ ''.mask'') \<noteq> Some Dir"
  shows "write_rgb r img dest w = Returned (w\<lparr>fs := (fs w)
           (dest \<mapsto> File ((if \<not> r \<and> size' img = (128, 128) then [0, 0, 0, 0] else []) @ rgb_data img),
            dest @ ''.mask'' \<mapsto> File (mask_data img))\<rparr>)"
  using assms
  by (auto simp: write_rgb_def open_wb_Inr fp_write_fresh Let_def open_wb_def fp_write_def split: option.splits node.splits)

subsection \<open>\<^verbatim>\<open>cli_convert\<close>: the planar RGB and mask files\<close>

lemma cli_convert_rgb:
  assumes "load_source c (fs w) args = Inr img" and "snd (splitext (convert_dest args)) = ''.rgb''"
  shows "cli_convert c args w = write_rgb (raw args) img (convert_dest args) w"
  using assms by (simp add: cli_convert_def Let_def)

text \<open>
  Claim C1. When \<^verbatim>\<open>cli_convert\<close> writes a target with extension
  \<^verbatim>\<open>.rgb\<close>, the file holds the RGB data preceded by four zero bytes exactly when
  the raw flag is unset and the size of the image is (128, 128), and the bare RGB data in
  every other case. For a non-raw 128 by 128 pixel buffer the file is therefore 4 bytes
  longer than width times height times 3 and begins with four zero bytes.
\<close>

theorem cli_convert_rgb_prefix:
  assumes "load_source c (fs w) args = Inr img"
    and "snd (splitext (convert_dest args)) = ''.rgb''"
    and "fs w (convert_dest args) \<noteq> Some Dir"
  shows "fs (world_of (cli_convert c args w)) (convert_dest args)
           = Some (File ((if \<not> raw args \<and> size' img = (128, 128) then [0, 0, 0, 0] else [])
                          @ rgb_data img))
         \<and> (\<not> raw args \<and> size' img = (128, 128) \<and> wf_image img \<longrightarrow>
              (\<exists>content. fs (world_of (cli_convert c args w)) (convert_dest args)
                             = Some (File content)
                 \<and> length content = fst (size' img) * snd (size' img) * 3 + 4
                 \<and> take 4 content = [0, 0, 0, 0]))"
proof -
  let ?dest = "convert_dest args"
  let ?prefix = "if \<not> raw args \<and> size' img = (128, 128) then [0, 0, 0, 0] else [] :: bytes"
  have written: "fs (world_of (cli_convert c args w)) ?dest = Some (File (?prefix @ rgb_data img))"
    using assms by (simp add: cli_convert_rgb write_rgb_dest)
  moreover have "length (?prefix @ rgb_data img) = fst (size' img) * snd (size' img) * 3 + 4"
      and "take 4 (?prefix @ rgb_data img) = [0, 0, 0, 0]"
    if "\<not> raw args" "size' img = (128, 128)" "wf_image img"
    using that by (simp_all add: length_rgb_data wf_image_def)
  ultimately show ?thesis by auto
qed

theorem cli_convert_rgb_prefix_witness:
  "fs (world_of (cli_convert toy_core \<lparr>raw = False, target' = ''rgb'', source' = ''big.png'', mask = None\<rparr> toy_world))
      ''big.png.rgb'' = Some (File ([0, 0, 0, 0] @ rgb_data big_image))
   \<and> length ([0, 0, 0, 0] @ rgb_data big_image) = 128 * 128 * 3 + 4
   \<and> fs (world_of (cli_convert toy_core \<lparr>raw = True, target' = ''rgb'', source' = ''big.png'', mask = None\<rparr> toy_world))
      ''big.png.rgb'' = Some (File (rgb_data big_image))
   \<and> fs (world_of (cli_convert toy_core \<lparr>raw = False, target' = ''s.rgb'', source' = ''small.png'', mask = None\<rparr> toy_world))
      ''s.rgb'' = Some (File [9, 9, 9, 9, 9, 9])"
proof -
  have load: "load_source toy_core (fs toy_world) \<lparr>raw = r, target' = t, source' = ''big.png'', mask = None\<rparr> = Inr big_image" for r t
    by (simp add: load_source_def ArgbImage_def read_file_def toy_world_def toy_fs_def toy_core_def
        toy_decode_def big_image_def)
  have rep2: "replicate 2 x = [x, x]" for x :: pixel
    by (simp add: numeral_2_eq_2)
  have loads: "load_source toy_core (fs toy_world) \<lparr>raw = r, target' = t, source' = ''small.png'', mask = None\<rparr> = Inr small_image" for r t
    by (simp add: load_source_def ArgbImage_def read_file_def toy_world_def toy_fs_def toy_core_def
        toy_decode_def small_image_def rep2)
  have ext: "snd (splitext ''big.png.rgb'') = ''.rgb''" "snd (splitext ''s.rgb'') = ''.rgb''"
    by (simp_all add: splitext_def rfind_def)
  have free: "fs toy_world ''big.png.rgb'' \<noteq> Some Dir" "fs toy_world ''s.rgb'' \<noteq> Some Dir"
    by (simp_all add: toy_world_def toy_fs_def)
  have wf: "wf_image big_image"
    by (simp add: wf_image_def big_image_def)
  have sz: "size' big_image = (128, 128)" "size' small_image \<noteq> (128, 128)"
    by (simp_all add: big_image_def small_image_def)
  have small: "rgb_data small_image = [9, 9, 9, 9, 9, 9]"
    by (simp add: rgb_data_def small_image_def)
  show ?thesis
    using cli_convert_rgb_prefix [of toy_core toy_world "\<lparr>raw = False, target' = ''rgb'', source' = ''big.png'', mask = None\<rparr>" big_image]
      cli_convert_rgb_prefix [of toy_core toy_world "\<lparr>raw = True, target' = ''rgb'', source' = ''big.png'', mask = None\<rparr>" big_image]
      cli_convert_rgb_prefix [of toy_core toy_world "\<lparr>raw = False, target' = ''s.rgb'', source' = ''small.png'', mask = None\<rparr>" small_image]
      load loads ext free wf sz small
    by (auto simp: convert_dest_def)
qed

text \<open>
  Claim C2. A conversion whose target extension is \<^verbatim>\<open>.rgb\<close> writes two files:
  the RGB byte stream, with the conditional 4-byte prefix, to the target path, and the
  alpha mask byte stream to the target path with \<^verbatim>\<open>.mask\<close> appended. Nothing
  else in the file system changes and nothing is printed. (The image has loaded and
  neither path is a directory, so that both files can be opened.)
\<close>

theorem cli_convert_rgb_two_files:
  assumes "load_source c (fs w) args = Inr img"
    and "snd (splitext (convert_dest args)) = ''.rgb''"
    and "fs w (convert_dest args) \<noteq> Some Dir"
    and "fs w (convert_dest args @ ''.mask'') \<noteq> Some Dir"
  shows "cli_convert c args w =
           Returned (w\<lparr>fs := (fs w)
             (convert_dest args \<mapsto>
                File ((if \<not> raw args \<and> size' img = (128, 128) then [0, 0, 0, 0] else [])
                       @ rgb_data img),
              convert_dest args @ ''.mask'' \<mapsto> File (mask_data img))\<rparr>)"
  using assms by (simp add: cli_convert_rgb write_rgb_ok)

theorem cli_convert_rgb_two_files_witness:
  "cli_convert toy_core \<lparr>raw = False, target' = ''s.rgb'', source' = ''small.png'', mask = None\<rparr> toy_world
     = Returned (toy_world\<lparr>fs := toy_fs(''s.rgb'' \<mapsto> File [9, 9, 9, 9, 9, 9],
                                         ''s.rgb.mask'' \<mapsto> File [255, 255])\<rparr>)"
proof -
  have rep2: "replicate 2 x = [x, x]" for x :: pixel
    by (simp add: numeral_2_eq_2)
  have load: "load_source toy_core (fs toy_world)
      \<lparr>raw = False, target' = ''s.rgb'', source' = ''small.png'', mask = None\<rparr> = Inr small_image"
    by (simp add: load_source_def ArgbImage_def read_file_def toy_world_def toy_fs_def toy_core_def
        toy_decode_def small_image_def rep2)
  have ext: "snd (splitext ''s.rgb'') = ''.rgb''"
    by (simp add: splitext_def rfind_def)
  have free: "fs toy_world ''s.rgb'' \<noteq> Some Dir" "fs toy_world ''s.rgb.mask'' \<noteq> Some Dir"
    by (simp_all add: toy_world_def toy_fs_def)
  have data: "rgb_data small_image = [9, 9, 9, 9, 9, 9]" "mask_data small_image = [255, 255]"
    "size' small_image \<noteq> (128, 128)"
    by (simp_all add: rgb_data_def mask_data_def small_image_def)
  have fs: "fs toy_world = toy_fs"
    by (simp add: toy_world_def)
  show ?thesis
    using cli_convert_rgb_two_files [of toy_core toy_world
        "\<lparr>raw = False, target' = ''s.rgb'', source' = ''small.png'', mask = None\<rparr>" small_image]
      load ext free data fs
    by (simp add: convert_dest_def)
qed

subsection \<open>\<^verbatim>\<open>cli_convert\<close>: an undetermined target type\<close>

text \<open>
  Claim C10. When the target is none of the words \<^verbatim>\<open>png\<close>, \<^verbatim>\<open>argb\<close>,
  \<^verbatim>\<open>rgb\<close> and its extension is none of \<^verbatim>\<open>.png\<close>, \<^verbatim>\<open>.argb\<close>,
  \<^verbatim>\<open>.rgb\<close>, \<^verbatim>\<open>cli_convert\<close> leaves the file system as it was, in every
  case. Once the source image has loaded it prints the message naming the target on the
  standard error stream and returns; an image that fails to load ends the call with that
  exception before the target is looked at.
\<close>

theorem cli_convert_undetermined:
  assumes "target' args \<notin> {''png'', ''argb'', ''rgb''}"
    and "snd (splitext (target' args)) \<notin> {''.png'', ''.argb'', ''.rgb''}"
  shows "fs (world_of (cli_convert c args w)) = fs w
         \<and> (case load_source c (fs w) args of
              Inl e \<Rightarrow> cli_convert c args w = Raised e w
            | Inr img \<Rightarrow>
                cli_convert c args w =
                  Returned (w\<lparr>stderr := stderr w @ [undetermined_message (target' args)]\<rparr>))"
  using assms
  by (simp add: cli_convert_def convert_dest_def Let_def print_stderr_def split: sum.splits)

theorem cli_convert_undetermined_witness:
  "cli_convert toy_core \<lparr>raw = False, target' = ''out.jpg'', source' = ''small.png'', mask = None\<rparr> toy_world
     = Returned (toy_world\<lparr>stderr :=
         [''Could not determine target image-type for file '' @ [CHR 0x22] @ ''out.jpg'' @ [CHR 0x22] @ ''.'']\<rparr>)
   \<and> fs (world_of (cli_convert toy_core
          \<lparr>raw = False, target' = ''out.jpg'', source' = ''small.png'', mask = None\<rparr> toy_world)) = toy_fs
   \<and> cli_convert toy_core \<lparr>raw = False, target' = ''noext'', source' = ''missing.png'', mask = None\<rparr> toy_world
     = Raised (FileNotFoundError ''missing.png'') toy_world"
proof -
  have rep2: "replicate 2 x = [x, x]" for x :: pixel
    by (simp add: numeral_2_eq_2)
  have load: "load_source toy_core (fs toy_world)
      \<lparr>raw = False, target' = ''out.jpg'', source' = ''small.png'', mask = None\<rparr> = Inr small_image"
    by (simp add: load_source_def ArgbImage_def read_file_def toy_world_def toy_fs_def toy_core_def
        toy_decode_def small_image_def rep2)
  have noload: "load_source toy_core (fs toy_world)
      \<lparr>raw = False, target' = ''noext'', source' = ''missing.png'', mask = None\<rparr>
      = Inl (FileNotFoundError ''missing.png'')"
    by (simp add: load_source_def ArgbImage_def read_file_def toy_world_def toy_fs_def)
  have ext: "snd (splitext ''out.jpg'') = ''.jpg''" "snd (splitext ''noext'') = []"
    by (simp_all add: splitext_def rfind_def)
  have w: "fs toy_world = toy_fs" "stderr toy_world = []"
    by (simp_all add: toy_world_def)
  show ?thesis
    using cli_convert_undetermined [of
        "\<lparr>raw = False, target' = ''out.jpg'', source' = ''small.png'', mask = None\<rparr>" toy_core toy_world]
      cli_convert_undetermined [of
        "\<lparr>raw = False, target' = ''noext'', source' = ''missing.png'', mask = None\<rparr>" toy_core toy_world]
      load noload ext w
    by (simp add: undetermined_message_def quoted_def)
qed

subsection \<open>\<^verbatim>\<open>enum_with_stdin\<close>\<close>

text \<open>\<^verbatim>\<open>strip\<close> removes a run of whitespace at each end and leaves no whitespace
  there.\<close>

lemma strip_surrounding:
  "\<exists>a b. s = a @ strip s @ b \<and> list_all isspace a \<and> list_all isspace b"
proof -
  let ?t = "dropWhile isspace s"
  have "rev (rev ?t) = rev (takeWhile isspace (rev ?t) @ dropWhile isspace (rev ?t))"
    by (simp only: takeWhile_dropWhile_id)
  then have t: "?t = strip s @ rev (takeWhile isspace (rev ?t))"
    unfolding strip_def by (simp only: rev_rev_ident rev_append)
  have "s = takeWhile isspace s @ ?t" by simp
  with t have "s = takeWhile isspace s @ strip s @ rev (takeWhile isspace (rev ?t))"
    by simp
  moreover have "list_all isspace (takeWhile isspace s)"
    by (auto simp: list_all_iff dest: set_takeWhileD)
  moreover have "list_all isspace (rev (takeWhile isspace (rev ?t)))"
    by (auto simp: list_all_iff dest: set_takeWhileD)
  ultimately show ?thesis by blast
qed

lemma strip_ends:
  assumes "strip s \<noteq> []"
  shows "\<not> isspace (hd (strip s)) \<and> \<not> isspace (last (strip s))"
proof -
  let ?t = "dropWhile isspace s"
  let ?u = "dropWhile isspace (rev ?t)"
  from assms have u: "?u \<noteq> []" by (simp add: strip_def)
  then have "\<not> isspace (hd ?u)" by (rule hd_dropWhile)
  moreover have "last (strip s) = hd ?u"
    using u by (simp add: strip_def last_rev)
  moreover have "\<not> isspace (hd (strip s))"
  proof -
    from u have t: "?t \<noteq> []" by (cases ?t) simp_all
    then have "\<not> isspace (hd ?t)" by (rule hd_dropWhile)
    moreover have "rev (rev ?t) = rev (takeWhile isspace (rev ?t) @ ?u)"
      by (simp only: takeWhile_dropWhile_id)
    then have "?t = strip s @ rev (takeWhile isspace (rev ?t))"
      unfolding strip_def by (simp only: rev_rev_ident rev_append)
    then have "hd ?t = hd (strip s)"
      using assms by (metis hd_append2)
    ultimately show ?thesis by simp
  qed
  ultimately show ?thesis by simp
qed

lemma enum_with_stdin_exhausted: "enum_with_stdin xs [] = filter (\<lambda>x. x \<noteq> ''-'') xs"
  by (induction xs) (simp_all add: readlines_def)

lemma enum_with_stdin_closed_form:
  "enum_with_stdin file_arg sin =
     (if ''-'' \<in> set file_arg then
        takeWhile (\<lambda>x. x \<noteq> ''-'') file_arg @ map strip sin
          @ filter (\<lambda>x. x \<noteq> ''-'') (tl (dropWhile (\<lambda>x. x \<noteq> ''-'') file_arg))
      else file_arg)"
  by (induction file_arg) (simp_all add: readlines_def enum_with_stdin_exhausted)

lemma enum_with_stdin_snoc:
  "enum_with_stdin (xs @ [x]) sin =
     enum_with_stdin xs sin
       @ (if x = ''-'' then map strip (if ''-'' \<in> set xs then [] else sin) else [x])"
proof (induction xs arbitrary: sin)
  case Nil
  show ?case by (simp add: readlines_def)
next
  case (Cons y ys)
  show ?case by (simp add: readlines_def Cons.IH)
qed

text \<open>
  Claim C8. For every list of file arguments, \<^verbatim>\<open>enum_with_stdin\<close> yields the
  concatenation, in argument order, of what each argument contributes: an argument that is
  not \<^verbatim>\<open>-\<close> contributes itself unchanged, and a \<^verbatim>\<open>-\<close> contributes the
  lines read from the standard input at that point, each stripped, in their input order.
\<close>

theorem enum_with_stdin_yields:
  "enum_with_stdin file_arg sin = concat (map (yields_at file_arg sin) [0..<length file_arg])"
proof (induction file_arg rule: rev_induct)
  case Nil
  show ?case by simp
next
  case (snoc x xs)
  have same: "map (yields_at (xs @ [x]) sin) [0..<length xs] = map (yields_at xs sin) [0..<length xs]"
    by (rule map_cong) (auto simp: yields_at_def stdin_lines_at_def nth_append)
  have last: "yields_at (xs @ [x]) sin (length xs)
                = (if x = ''-'' then map strip (if ''-'' \<in> set xs then [] else sin) else [x])"
    by (simp add: yields_at_def stdin_lines_at_def)
  show ?case
    by (simp add: enum_with_stdin_snoc same last snoc.IH)
qed

theorem enum_with_stdin_yields_witness:
  "enum_with_stdin [''a.png'', ''-'', ''b.png'', ''-''] ['' x.png\<newline>'', ''y.png \<newline>'']
     = [''a.png'', ''x.png'', ''y.png'', ''b.png'']"
proof -
  have s: "strip '' x.png\<newline>'' = ''x.png''" "strip ''y.png \<newline>'' = ''y.png''"
    by (simp_all add: strip_def isspace_def)
  have u: "[0..<4] = [0, 1, 2, 3]"
    by (simp add: upt_rec)
  show ?thesis
    using enum_with_stdin_yields [of "[''a.png'', ''-'', ''b.png'', ''-'']" "['' x.png\<newline>'', ''y.png \<newline>'']"]
    by (simp add: yields_at_def stdin_lines_at_def s u)
qed
subsection \<open>\<^verbatim>\<open>os.path.splitext\<close>\<close>

text \<open>The two parts give the path back; an extension starts with a dot and holds no
  further dot and no separator; and the extension is empty exactly when the last
  component, its leading dots aside, has no dot.\<close>

lemma rfind_from_absent: "c \<notin> set xs \<Longrightarrow> rfind_from c xs i found = found"
  by (induction xs arbitrary: i found) auto

lemma rfind_from_last:
  "c \<notin> set ys \<Longrightarrow> rfind_from c (xs @ c # ys) i found = i + int (length xs)"
  by (induction xs arbitrary: i found) (auto simp: rfind_from_absent)

lemma rfind_absent: "c \<notin> set p \<Longrightarrow> rfind p c = - 1"
  by (simp add: rfind_def rfind_from_absent)

lemma rfind_last: "c \<notin> set ys \<Longrightarrow> rfind (xs @ c # ys) c = int (length xs)"
  by (simp add: rfind_def rfind_from_last)

lemma split_at_last: "c \<in> set p \<Longrightarrow> \<exists>xs ys. p = xs @ c # ys \<and> c \<notin> set ys"
  by (metis split_list_last)

lemma splitext_loop_result:
  "splitext_loop p i d = (take d p, drop d p) \<or> splitext_loop p i d = (p, [])"
proof (induction p i d rule: splitext_loop.induct)
  case (1 p i d)
  then show ?case by (subst (1 2) splitext_loop.simps) (auto simp del: splitext_loop.simps)
qed

lemma splitext_loop_scan:
  "splitext_loop p i d =
     (if \<exists>j. i \<le> j \<and> j < d \<and> p ! j \<noteq> CHR ''.'' then (take d p, drop d p) else (p, []))"
proof (induction p i d rule: splitext_loop.induct)
  case (1 p i d)
  show ?case
  proof (cases "i < d")
    case False
    then show ?thesis by (subst splitext_loop.simps) (auto simp del: splitext_loop.simps)
  next
    case True
    show ?thesis
    proof (cases "p ! i \<noteq> CHR ''.''")
      case True
      with \<open>i < d\<close> show ?thesis by (subst splitext_loop.simps) (auto simp del: splitext_loop.simps)
    next
      case False
      then have dot: "p ! i = CHR ''.''" by simp
      have "(\<exists>j. i \<le> j \<and> j < d \<and> p ! j \<noteq> CHR ''.'') = (\<exists>j. i + 1 \<le> j \<and> j < d \<and> p ! j \<noteq> CHR ''.'')"
        using dot by (metis Suc_eq_plus1 Suc_leI le_neq_implies_less add_leD1)
      with "1.IH" [OF \<open>i < d\<close>] dot \<open>i < d\<close> show ?thesis
        by (subst splitext_loop.simps) (simp del: splitext_loop.simps)
    qed
  qed
qed

lemma splitext_parts: "fst (splitext p) @ snd (splitext p) = p"
  using splitext_loop_result [of p "nat (rfind p CHR ''/'' + 1)" "nat (rfind p CHR ''.'')"]
  by (auto simp: splitext_def Let_def simp del: splitext_loop.simps)

lemma splitext_extension:
  assumes "snd (splitext p) \<noteq> []"
  shows "\<exists>name. snd (splitext p) = CHR ''.'' # name \<and> CHR ''.'' \<notin> set name \<and> CHR ''/'' \<notin> set name"
proof -
  let ?sep = "rfind p CHR ''/''" and ?dot = "rfind p CHR ''.''"
  from assms have gt: "?dot > ?sep"
      and ext: "snd (splitext p) = drop (nat ?dot) p"
    using splitext_loop_result [of p "nat (?sep + 1)" "nat ?dot"]
    by (auto simp: splitext_def Let_def simp del: splitext_loop.simps split: if_splits)
  have "CHR ''.'' \<in> set p"
  proof (rule ccontr)
    assume "CHR ''.'' \<notin> set p"
    then have "?dot = - 1" by (rule rfind_absent)
    moreover have "?sep \<ge> - 1"
    proof (cases "CHR ''/'' \<in> set p")
      case True
      then obtain a b where "p = a @ CHR ''/'' # b" "CHR ''/'' \<notin> set b"
        using split_at_last [of "CHR ''/''" p] by auto
      then show ?thesis using rfind_last [of "CHR ''/''" b a] by simp
    next
      case False
      then show ?thesis by (simp add: rfind_absent)
    qed
    ultimately show False using gt by simp
  qed
  then obtain xs name where p: "p = xs @ CHR ''.'' # name" and nd: "CHR ''.'' \<notin> set name"
    using split_at_last [of "CHR ''.''" p] by auto
  then have dot: "?dot = int (length xs)" by (simp add: rfind_last)
  have "CHR ''/'' \<notin> set name"
  proof
    assume "CHR ''/'' \<in> set name"
    then obtain a b where n: "name = a @ CHR ''/'' # b" "CHR ''/'' \<notin> set b"
      using split_at_last [of "CHR ''/''" name] by auto
    then have "p = (xs @ CHR ''.'' # a) @ CHR ''/'' # b" using p by simp
    then have "?sep = int (length (xs @ CHR ''.'' # a))"
      using n(2) rfind_last [of "CHR ''/''" b "xs @ CHR ''.'' # a"] by simp
    with gt dot show False by simp
  qed
  have "drop (length xs) p = CHR ''.'' # name" using p by simp
  with ext dot nd \<open>CHR ''/'' \<notin> set name\<close> show ?thesis by simp
qed


lemma splitext_scan:
  "splitext p =
     (if rfind p CHR ''.'' > rfind p CHR ''/''
         \<and> (\<exists>j. nat (rfind p CHR ''/'' + 1) \<le> j \<and> j < nat (rfind p CHR ''.'') \<and> p ! j \<noteq> CHR ''.'')
      then (take (nat (rfind p CHR ''.'')) p, drop (nat (rfind p CHR ''.'')) p)
      else (p, []))"
  unfolding splitext_def Let_def splitext_loop_scan by auto

lemma rfind_sep_component:
  assumes "CHR ''/'' \<notin> set q" and "d = [] \<or> last d = CHR ''/''"
  shows "rfind (d @ q) CHR ''/'' + 1 = int (length d)"
proof (cases "d = []")
  case True
  with assms show ?thesis by (simp add: rfind_absent)
next
  case False
  with assms(2) obtain d' where d: "d = d' @ [CHR ''/'']"
    by (metis append_butlast_last_id)
  then have "d @ q = d' @ CHR ''/'' # q" by simp
  with assms(1) rfind_last [of "CHR ''/''" q d'] d show ?thesis by simp
qed

lemma splitext_component:
  assumes nosep: "CHR ''/'' \<notin> set q" and dir: "d = [] \<or> last d = CHR ''/''"
  shows "snd (splitext (d @ q)) = [] \<longleftrightarrow> CHR ''.'' \<notin> set (dropWhile (\<lambda>ch. ch = CHR ''.'') q)"
proof (cases "CHR ''.'' \<in> set q")
  case True
  then obtain b1 b2 where q: "q = b1 @ CHR ''.'' # b2" and nd: "CHR ''.'' \<notin> set b2"
    using split_at_last [of "CHR ''.''" q] by auto
  let ?p = "d @ q"
  have sep: "rfind ?p CHR ''/'' + 1 = int (length d)"
    using nosep dir by (rule rfind_sep_component)
  have "?p = (d @ b1) @ CHR ''.'' # b2" using q by simp
  then have "rfind ?p CHR ''.'' = int (length (d @ b1))"
    using nd rfind_last [of "CHR ''.''" b2 "d @ b1"] by simp
  then have dot: "rfind ?p CHR ''.'' = int (length d + length b1)" by simp
  have scan: "(\<exists>j. length d \<le> j \<and> j < length d + length b1 \<and> ?p ! j \<noteq> CHR ''.'')
                \<longleftrightarrow> (\<exists>ch\<in>set b1. ch \<noteq> CHR ''.'')"
  proof
    assume "\<exists>j. length d \<le> j \<and> j < length d + length b1 \<and> ?p ! j \<noteq> CHR ''.''"
    then obtain j where j: "length d \<le> j" "j < length d + length b1" "?p ! j \<noteq> CHR ''.''"
      by blast
    then have "?p ! j = b1 ! (j - length d)" "j - length d < length b1"
      using q by (auto simp: nth_append)
    with j(3) show "\<exists>ch\<in>set b1. ch \<noteq> CHR ''.''"
      by (metis nth_mem)
  next
    assume "\<exists>ch\<in>set b1. ch \<noteq> CHR ''.''"
    then obtain i where i: "i < length b1" "b1 ! i \<noteq> CHR ''.''"
      by (metis in_set_conv_nth)
    then have "?p ! (length d + i) = b1 ! i"
      using q by (simp add: nth_append)
    with i show "\<exists>j. length d \<le> j \<and> j < length d + length b1 \<and> ?p ! j \<noteq> CHR ''.''"
      by (metis add_less_cancel_left le_add1)
  qed
  have gt: "rfind ?p CHR ''.'' > rfind ?p CHR ''/''"
    using sep dot by simp
  have n: "nat (rfind ?p CHR ''/'' + 1) = length d" "nat (rfind ?p CHR ''.'') = length d + length b1"
    using sep dot by simp_all
  have sp: "splitext ?p =
      (if \<exists>ch\<in>set b1. ch \<noteq> CHR ''.''
       then (take (length d + length b1) ?p, drop (length d + length b1) ?p) else (?p, []))"
    unfolding splitext_scan [of ?p] n scan using gt by simp
  have "drop (length d + length b1) ?p = CHR ''.'' # b2"
    using q by simp
  then have lhs: "snd (splitext ?p) = [] \<longleftrightarrow> \<not> (\<exists>ch\<in>set b1. ch \<noteq> CHR ''.'')"
    unfolding sp by simp
  have rhs: "CHR ''.'' \<in> set (dropWhile (\<lambda>ch. ch = CHR ''.'') q) \<longleftrightarrow> (\<exists>ch\<in>set b1. ch \<noteq> CHR ''.'')"
  proof (cases "\<exists>ch\<in>set b1. ch \<noteq> CHR ''.''")
    case True
    then have "dropWhile (\<lambda>ch. ch = CHR ''.'') q = dropWhile (\<lambda>ch. ch = CHR ''.'') b1 @ CHR ''.'' # b2"
      using q by (auto simp: dropWhile_append1)
    with True show ?thesis by simp
  next
    case False
    then have "dropWhile (\<lambda>ch. ch = CHR ''.'') q = dropWhile (\<lambda>ch. ch = CHR ''.'') b2"
      using q by (simp add: dropWhile_append2)
    with False nd show ?thesis
      by (metis set_dropWhileD)
  qed
  from lhs rhs show ?thesis by simp
next
  case False
  then have rhs: "CHR ''.'' \<notin> set (dropWhile (\<lambda>ch. ch = CHR ''.'') q)"
    by (metis set_dropWhileD)
  let ?p = "d @ q"
  have sep: "rfind ?p CHR ''/'' + 1 = int (length d)"
    using nosep dir by (rule rfind_sep_component)
  have "\<not> rfind ?p CHR ''.'' > rfind ?p CHR ''/''"
  proof (cases "CHR ''.'' \<in> set d")
    case False
    with \<open>CHR ''.'' \<notin> set q\<close> have "rfind ?p CHR ''.'' = - 1"
      by (simp add: rfind_absent)
    with sep show ?thesis by simp
  next
    case True
    then obtain e1 e2 where d: "d = e1 @ CHR ''.'' # e2" and "CHR ''.'' \<notin> set e2"
      using split_at_last [of "CHR ''.''" d] by auto
    with \<open>CHR ''.'' \<notin> set q\<close> have "rfind ((e1 @ CHR ''.'' # e2) @ q) CHR ''.'' = int (length e1)"
      using rfind_last [of "CHR ''.''" "e2 @ q" e1] by simp
    then have dot: "rfind ?p CHR ''.'' = int (length e1)" using d by simp
    have "e2 \<noteq> []"
      using dir d by auto
    then have "length e1 + 2 \<le> length d" using d by (cases e2) auto
    with sep dot show ?thesis by simp
  qed
  then have "snd (splitext ?p) = []"
    by (subst splitext_scan) simp
  with rhs show ?thesis by simp
qed

lemma last_component_split:
  "\<exists>d. p = d @ last_component p \<and> (d = [] \<or> last d = CHR ''/'')"
proof -
  let ?P = "\<lambda>ch. ch \<noteq> CHR ''/''"
  have "rev (rev p) = rev (takeWhile ?P (rev p) @ dropWhile ?P (rev p))"
    by (simp only: takeWhile_dropWhile_id)
  then have "p = rev (dropWhile ?P (rev p)) @ last_component p"
    unfolding last_component_def by (simp only: rev_rev_ident rev_append)
  moreover have "rev (dropWhile ?P (rev p)) = [] \<or> last (rev (dropWhile ?P (rev p))) = CHR ''/''"
  proof (cases "dropWhile ?P (rev p)")
    case Nil
    then show ?thesis by simp
  next
    case (Cons x xs)
    then have "x = CHR ''/''"
      using hd_dropWhile [of ?P "rev p"] by simp
    with Cons show ?thesis by simp
  qed
  ultimately show ?thesis by blast
qed

lemma last_component_no_sep: "CHR ''/'' \<notin> set (last_component p)"
  unfolding last_component_def by (auto dest: set_takeWhileD)

lemma splitext_no_extension:
  "snd (splitext p) = [] \<longleftrightarrow>
     CHR ''.'' \<notin> set (dropWhile (\<lambda>ch. ch = CHR ''.'') (last_component p))"
proof -
  obtain d where d: "p = d @ last_component p" "d = [] \<or> last d = CHR ''/''"
    using last_component_split [of p] by auto
  from splitext_component [OF last_component_no_sep d(2), of p] d(1) show ?thesis by simp
qed

lemma splitext_examples:
  "splitext ''icon'' = (''icon'', [])"
  "splitext ''icon.png'' = (''icon'', ''.png'')"
  "splitext ''.hidden'' = (''.hidden'', [])"
  "splitext ''v1.2/icon'' = (''v1.2/icon'', [])"
  "splitext ''dir/..a.rgb'' = (''dir/..a'', ''.rgb'')"
  by (simp_all add: splitext_def rfind_def)

subsection \<open>\<^verbatim>\<open>cli_compose\<close>\<close>

lemma IcnsFile_write_ok:
  "fs w p \<noteq> Some Dir \<Longrightarrow>
   IcnsFile_write c icns p t w = Returned (w\<lparr>fs := (fs w)(p \<mapsto> File (serialize c icns t))\<rparr>)"
  by (simp add: IcnsFile_write_def open_wb_Inr fp_write_fresh)

lemma add_media_append:
  "add_media c f icns key p False = Inr icns' \<Longrightarrow> length (entries icns') = Suc (length (entries icns))"
  by (auto simp: add_media_def split: sum.splits if_splits)

lemma compose_loop_length:
  "compose_loop c f xs img = Inr img' \<Longrightarrow> length (entries img') = length (entries img) + length xs"
proof (induction xs arbitrary: img)
  case Nil
  then show ?case by simp
next
  case (Cons x xs)
  then obtain mid where a: "add_media c f img None x False = Inr mid"
      and l: "compose_loop c f xs mid = Inr img'"
    by (auto split: sum.splits)
  from Cons.IH [OF l] add_media_append [OF a] show ?case by simp
qed

lemma toy_compose_loop:
  "compose_loop toy_core toy_fs [''x.png'', ''big.png''] IcnsFile_empty = Inr composed"
  by (simp add: add_media_def read_file_def toy_fs_def toy_core_def toy_resolve_def tags_def
      IcnsFile_empty_def composed_def)

lemma toy_enum: "enum_with_stdin [''x.png'', ''-''] [''big.png\<newline>''] = [''x.png'', ''big.png'']"
  by (simp add: readlines_def strip_def isspace_def)

lemma toy_splitext:
  "snd (splitext ''new'') = []" "snd (splitext ''a'') = []" "snd (splitext ''a.icns'') = ''.icns''"
  by (simp_all add: splitext_def rfind_def)

lemma compose_dest_extension:
  "compose_dest tgt = (if has_extension tgt then tgt else tgt @ ''.icns'')"
  by (simp add: compose_dest_def has_extension_def splitext_no_extension)

lemma toy_has_extension:
  "\<not> has_extension ''new''" "\<not> has_extension ''a''" "has_extension ''a.icns''"
  by (simp_all add: has_extension_def last_component_def)

text \<open>
  Claim C9. The destination of \<^verbatim>\<open>cli_compose\<close> is the target with
  \<^verbatim>\<open>.icns\<close> appended when the target has no filename extension, and the target
  itself when it has one. Both the destination-exists check and the write use that path:
  with force unset and the path present the call only prints the message naming it;
  otherwise the composed archive is written to it.
\<close>

theorem cli_compose_target_extension:
  assumes "dest = (if has_extension (target args) then target args else target args @ ''.icns'')"
  shows "(\<not> force args \<and> path_exists (fs w) dest \<longrightarrow>
            cli_compose c args sin w = Returned (w\<lparr>stderr := stderr w @ [exists_message dest]\<rparr>))
       \<and> ((force args \<or> \<not> path_exists (fs w) dest) \<and> fs w dest \<noteq> Some Dir
            \<and> compose_loop c (fs w) (enum_with_stdin (source args) sin) IcnsFile_empty = Inr img \<longrightarrow>
            cli_compose c args sin w =
              Returned (w\<lparr>fs := (fs w)(dest \<mapsto> File (serialize c img (\<not> no_toc args)))\<rparr>))"
  using assms
  by (auto simp: cli_compose_def compose_dest_extension print_stderr_def IcnsFile_write_ok Let_def)

theorem cli_compose_target_extension_witness:
  "cli_compose toy_core \<lparr>target = ''new'', force = False, no_toc = False, source = [''x.png'', ''-'']\<rparr>
      [''big.png\<newline>''] toy_world
     = Returned (toy_world\<lparr>fs := toy_fs(''new.icns'' \<mapsto> File [1, 0, 7, 128, 128, 9])\<rparr>)
   \<and> cli_compose toy_core \<lparr>target = ''a'', force = False, no_toc = False, source = [''x.png'', ''-'']\<rparr>
      [''big.png\<newline>''] toy_world
     = Returned (toy_world\<lparr>stderr := [exists_message ''a.icns'']\<rparr>)
   \<and> cli_compose toy_core \<lparr>target = ''a.icns'', force = True, no_toc = True, source = [''x.png'', ''-'']\<rparr>
      [''big.png\<newline>''] toy_world
     = Returned (toy_world\<lparr>fs := toy_fs(''a.icns'' \<mapsto> File [0, 0, 7, 128, 128, 9])\<rparr>)"
proof -
  have w: "fs toy_world = toy_fs" "stderr toy_world = []"
    by (simp_all add: toy_world_def)
  have paths: "\<not> path_exists toy_fs ''new.icns''" "path_exists toy_fs ''a.icns''"
    "toy_fs ''new.icns'' \<noteq> Some Dir" "toy_fs ''a.icns'' \<noteq> Some Dir"
    by (simp_all add: path_exists_def toy_fs_def)
  have ser: "serialize toy_core composed True = [1, 0, 7, 128, 128, 9]"
    "serialize toy_core composed False = [0, 0, 7, 128, 128, 9]"
    by (simp_all add: toy_core_def toy_serialize_def composed_def)
  show ?thesis
    using cli_compose_target_extension [of "''new.icns''"
        "\<lparr>target = ''new'', force = False, no_toc = False, source = [''x.png'', ''-'']\<rparr>"
        toy_world toy_core "[''big.png\<newline>'']" composed]
      cli_compose_target_extension [of "''a.icns''"
        "\<lparr>target = ''a'', force = False, no_toc = False, source = [''x.png'', ''-'']\<rparr>"
        toy_world toy_core "[''big.png\<newline>'']" composed]
      cli_compose_target_extension [of "''a.icns''"
        "\<lparr>target = ''a.icns'', force = True, no_toc = True, source = [''x.png'', ''-'']\<rparr>"
        toy_world toy_core "[''big.png\<newline>'']" composed]
      w paths ser toy_compose_loop toy_enum toy_has_extension
    by (simp del: enum_with_stdin.simps compose_loop.simps)
qed

text \<open>
  Claim C4. With the force flag unset and the destination present, \<^verbatim>\<open>cli_compose\<close>
  returns after printing the message: the outcome depends neither on the sources nor on
  the codecs, and the file system is unchanged. With force set or the destination absent,
  it adds every source that \<^verbatim>\<open>enum_with_stdin\<close> yields to an empty archive (one
  entry per source, the first failing \<^verbatim>\<open>add_media\<close> ending the call) and writes
  the archive to the destination.
\<close>

theorem cli_compose_guard:
  "(\<not> force args \<and> path_exists (fs w) (compose_dest (target args)) \<longrightarrow>
      cli_compose c args sin w = Returned (print_stderr (exists_message (compose_dest (target args))) w)
      \<and> fs (world_of (cli_compose c args sin w)) = fs w)
   \<and> (force args \<or> \<not> path_exists (fs w) (compose_dest (target args)) \<longrightarrow>
      (case compose_loop c (fs w) (enum_with_stdin (source args) sin) IcnsFile_empty of
         Inl e \<Rightarrow> cli_compose c args sin w = Raised e w
       | Inr img \<Rightarrow>
           length (entries img) = length (enum_with_stdin (source args) sin)
           \<and> cli_compose c args sin w
               = IcnsFile_write c img (compose_dest (target args)) (\<not> no_toc args) w
           \<and> (fs w (compose_dest (target args)) \<noteq> Some Dir \<longrightarrow>
                cli_compose c args sin w =
                  Returned (w\<lparr>fs := (fs w)(compose_dest (target args) \<mapsto>
                              File (serialize c img (\<not> no_toc args)))\<rparr>))))"
proof -
  have "length (entries img) = length (enum_with_stdin (source args) sin)"
    if "compose_loop c (fs w) (enum_with_stdin (source args) sin) IcnsFile_empty = Inr img" for img
    using compose_loop_length [OF that] by (simp add: IcnsFile_empty_def)
  then show ?thesis
    by (auto simp: cli_compose_def print_stderr_def IcnsFile_write_ok Let_def split: sum.splits)
qed

theorem cli_compose_guard_witness:
  "cli_compose toy_core \<lparr>target = ''a'', force = False, no_toc = False, source = [''x.png'', ''-'']\<rparr>
      [''big.png\<newline>''] toy_world
     = Returned (toy_world\<lparr>stderr := [exists_message ''a.icns'']\<rparr>)
   \<and> cli_compose toy_core \<lparr>target = ''a'', force = True, no_toc = False, source = [''x.png'', ''-'']\<rparr>
      [''big.png\<newline>''] toy_world
     = Returned (toy_world\<lparr>fs := toy_fs(''a.icns'' \<mapsto> File [1, 0, 7, 128, 128, 9])\<rparr>)
   \<and> cli_compose toy_core \<lparr>target = ''new'', force = False, no_toc = False, source = [''x.png'', ''x.png'']\<rparr>
      [] toy_world
     = Raised DuplicateEntryError toy_world"
proof -
  have w: "fs toy_world = toy_fs" "stderr toy_world = []"
    by (simp_all add: toy_world_def)
  have paths: "\<not> path_exists toy_fs ''new.icns''" "path_exists toy_fs ''a.icns''"
    "toy_fs ''new.icns'' \<noteq> Some Dir" "toy_fs ''a.icns'' \<noteq> Some Dir"
    by (simp_all add: path_exists_def toy_fs_def)
  have ser: "serialize toy_core composed True = [1, 0, 7, 128, 128, 9]"
    by (simp add: toy_core_def toy_serialize_def composed_def)
  have enum2: "enum_with_stdin [''x.png'', ''x.png''] [] = [''x.png'', ''x.png'']"
    by simp
  have dup: "compose_loop toy_core toy_fs [''x.png'', ''x.png''] IcnsFile_empty = Inl DuplicateEntryError"
    by (simp add: add_media_def read_file_def toy_fs_def toy_core_def toy_resolve_def tags_def
      IcnsFile_empty_def)
  show ?thesis
    using cli_compose_guard [of
        "\<lparr>target = ''a'', force = False, no_toc = False, source = [''x.png'', ''-'']\<rparr>"
        toy_world toy_core "[''big.png\<newline>'']"]
      cli_compose_guard [of
        "\<lparr>target = ''a'', force = True, no_toc = False, source = [''x.png'', ''-'']\<rparr>"
        toy_world toy_core "[''big.png\<newline>'']"]
      cli_compose_guard [of
        "\<lparr>target = ''new'', force = False, no_toc = False, source = [''x.png'', ''x.png'']\<rparr>"
        toy_world toy_core "[]"]
      w paths ser toy_compose_loop toy_enum toy_splitext enum2 dup
    by (simp add: compose_dest_def print_stderr_def IcnsFile_write_ok
        del: enum_with_stdin.simps compose_loop.simps)
qed

subsection \<open>\<^verbatim>\<open>cli_update\<close>: arguments that are refused\<close>

lemma split_on_not_Nil: "split_on c s \<noteq> []"
  by (induction s) auto


lemma split_on_single: "split_on c s = [v] \<Longrightarrow> v = s \<and> c \<notin> set s"
proof (induction s arbitrary: v)
  case Nil
  then show ?case by simp
next
  case (Cons x xs)
  show ?case
  proof (cases "x = c")
    case True
    with Cons.prems show ?thesis by (simp add: split_on_not_Nil)
  next
    case False
    with Cons.prems have tl: "tl (split_on c xs) = []" and v: "v = x # hd (split_on c xs)"
      by auto
    from tl have "split_on c xs = [hd (split_on c xs)]"
      using split_on_not_Nil [of c xs] by (cases "split_on c xs") auto
    from Cons.IH [OF this] v False show ?thesis by auto
  qed
qed

lemma split_on_pair:
  "split_on c s = [k, v] \<Longrightarrow> s = k @ c # v \<and> c \<notin> set k \<and> c \<notin> set v"
proof (induction s arbitrary: k)
  case Nil
  then show ?case by simp
next
  case (Cons x xs)
  show ?case
  proof (cases "x = c")
    case True
    with Cons.prems have "k = []" "split_on c xs = [v]" by auto
    with split_on_single [of c xs v] True show ?thesis by auto
  next
    case False
    with Cons.prems have k: "k = x # hd (split_on c xs)" and tl: "tl (split_on c xs) = [v]"
      by auto
    from tl have "split_on c xs = [hd (split_on c xs), v]"
      using split_on_not_Nil [of c xs] by (cases "split_on c xs") auto
    from Cons.IH [OF this] k False show ?thesis by auto
  qed
qed


lemma set_value_key_val: "CHR ''='' \<notin> set k \<Longrightarrow> set_value (k @ CHR ''='' # v) = v"
  by (induction k) (auto simp: set_value_def)

lemma update_set_loop_accepts:
  "update_set_loop c f kvs icns ch = Inr r \<Longrightarrow> kv \<in> set kvs \<Longrightarrow>
   CHR ''='' \<in> set kv \<and> set_value kv \<noteq> [] \<and> path_isfile f (set_value kv)"
proof (induction kvs arbitrary: icns ch)
  case Nil
  then show ?case by simp
next
  case (Cons a rest)
  from Cons.prems(1) obtain key val where sp: "split_on CHR ''='' a = [key, val]"
    by (auto split: if_splits list.splits)
  from split_on_pair [OF sp] have a: "a = key @ CHR ''='' # val" and nk: "CHR ''='' \<notin> set key"
    by auto
  have sv: "set_value a = val"
    using a nk by (simp add: set_value_key_val)
  from Cons.prems(1) sp have ok: "val \<noteq> []" "path_isfile f val"
    and rest: "\<exists>icns'. update_set_loop c f rest icns' True = Inr r"
    by (auto split: if_splits sum.splits)
  show ?case
  proof (cases "kv = a")
    case True
    with a sv ok show ?thesis by auto
  next
    case False
    with Cons.prems(2) have "kv \<in> set rest" by simp
    with rest Cons.IH show ?thesis by blast
  qed
qed

lemma toy_IcnsFile:
  "IcnsFile toy_core toy_fs ''a.icns'' = Inr toy_archive"
  "IcnsFile toy_core toy_fs ''plain.icns'' = Inr plain_archive"
  by (simp_all add: IcnsFile_def read_file_def toy_fs_def toy_core_def toy_parse_def
      toy_archive_def plain_archive_def)

lemma toy_world_fields: "fs toy_world = toy_fs" "stderr toy_world = []"
  by (simp_all add: toy_world_def)

lemma toy_key_from_readable: "key_from_readable toy_core x = Inr x"
  by (simp add: toy_core_def)

text \<open>
  Claim C3. When some \<^verbatim>\<open>-set\<close> argument contains no \<^verbatim>\<open>=\<close>, or has an
  empty value after it, or names a value that is not an existing file,
  \<^verbatim>\<open>cli_update\<close> ends with an exception and the world is exactly as before: the
  write is never reached, whatever the other \<^verbatim>\<open>-rm\<close> and \<^verbatim>\<open>-set\<close>
  arguments are.
\<close>

theorem cli_update_bad_set_argument:
  assumes "key_val \<in> set (or_empty (set' args))"
    and "CHR ''='' \<notin> set key_val \<or> set_value key_val = []
         \<or> \<not> path_isfile (fs w) (set_value key_val)"
  shows "\<exists>e. cli_update c args w = Raised e w"
proof -
  have "update_set_loop c (fs w) (or_empty (set' args)) icns ch \<noteq> Inr r" for icns ch r
    using update_set_loop_accepts [of c "fs w" "or_empty (set' args)" icns ch r key_val] assms
    by auto
  then have "update_media c (fs w) args icns \<noteq> Inr r" for icns r
    by (auto simp: update_media_def split: sum.splits)
  then show ?thesis
    by (auto simp: cli_update_def split: sum.splits)
qed

theorem cli_update_bad_set_argument_witness:
  "(\<exists>e. cli_update toy_core
        \<lparr>file' = ''a.icns'', output' = None, rm = Some [''icp4''], set' = Some [''icp5=x.png'', ''bad'']\<rparr>
        toy_world = Raised e toy_world)
   \<and> (\<exists>e. cli_update toy_core
        \<lparr>file' = ''a.icns'', output' = Some ''b.icns'', rm = None, set' = Some [''icp5='']\<rparr>
        toy_world = Raised e toy_world)
   \<and> (\<exists>e. cli_update toy_core
        \<lparr>file' = ''a.icns'', output' = None, rm = None, set' = Some [''icp5=missing.png'']\<rparr>
        toy_world = Raised e toy_world)"
proof -
  have v: "set_value ''icp5='' = []" "set_value ''icp5=missing.png'' = ''missing.png''"
    by (simp_all add: set_value_def)
  have m: "\<not> path_isfile toy_fs ''missing.png''"
    by (simp add: path_isfile_def toy_fs_def)
  show ?thesis
    using cli_update_bad_set_argument [of "''bad''"
        "\<lparr>file' = ''a.icns'', output' = None, rm = Some [''icp4''], set' = Some [''icp5=x.png'', ''bad'']\<rparr>"
        toy_world toy_core]
      cli_update_bad_set_argument [of "''icp5=''"
        "\<lparr>file' = ''a.icns'', output' = Some ''b.icns'', rm = None, set' = Some [''icp5='']\<rparr>"
        toy_world toy_core]
      cli_update_bad_set_argument [of "''icp5=missing.png''"
        "\<lparr>file' = ''a.icns'', output' = None, rm = None, set' = Some [''icp5=missing.png'']\<rparr>"
        toy_world toy_core]
      v m
    by (simp add: or_empty_def toy_world_fields)
qed

subsection \<open>\<^verbatim>\<open>cli_update\<close>: forced replacement\<close>















subsection \<open>\<^verbatim>\<open>cli_update\<close>: the lookup table\<close>

lemma remove_media_has_toc: "has_toc (snd (remove_media icns k)) = has_toc icns"
  by (simp add: remove_media_def has_toc_def)

lemma add_media_has_toc: "add_media c f icns key p forced = Inr icns' \<Longrightarrow> has_toc icns' = has_toc icns"
  by (auto simp: add_media_def has_toc_def split: sum.splits if_splits)

lemma update_rm_loop_has_toc:
  "update_rm_loop c xs icns ch = Inr (icns', ch') \<Longrightarrow> has_toc icns' = has_toc icns"
proof (induction xs arbitrary: icns ch)
  case Nil
  then show ?case by simp
next
  case (Cons x xs)
  then obtain k removed mid where r: "remove_media icns k = (removed, mid)"
      and l: "update_rm_loop c xs mid (ch \<or> removed) = Inr (icns', ch')"
    by (auto split: sum.splits prod.splits)
  from remove_media_has_toc [of icns k] r have "has_toc mid = has_toc icns" by simp
  with Cons.IH [OF l] show ?case by simp
qed

lemma update_set_loop_has_toc:
  "update_set_loop c f kvs icns ch = Inr (icns', ch') \<Longrightarrow> has_toc icns' = has_toc icns"
proof (induction kvs arbitrary: icns ch)
  case Nil
  then show ?case by simp
next
  case (Cons kv rest)
  then obtain k val mid where a: "add_media c f icns (Some k) val True = Inr mid"
      and l: "update_set_loop c f rest mid True = Inr (icns', ch')"
    by (auto split: sum.splits list.splits if_splits)
  from Cons.IH [OF l] add_media_has_toc [OF a] show ?case by simp
qed

lemma update_media_has_toc:
  "update_media c f args icns = Inr (icns', ch') \<Longrightarrow> has_toc icns' = has_toc icns"
  using update_rm_loop_has_toc update_set_loop_has_toc
  by (fastforce simp: update_media_def split: sum.splits prod.splits)

text \<open>
  Claim C6. Whenever \<^verbatim>\<open>cli_update\<close> reaches its write (the archive was read, both
  loops ended normally, and there are changes or an output path), the archive it writes
  has a lookup table exactly when the archive it read had one: the flag passed to
  \<^verbatim>\<open>write\<close> is that of the input.
\<close>

theorem cli_update_keeps_toc:
  assumes "IcnsFile c (fs w) (file' args) = Inr icns0"
    and "update_media c (fs w) args icns0 = Inr (icns, has_changes)"
    and "has_changes \<or> truthy (output' args)"
  shows "has_toc icns = has_toc icns0
       \<and> cli_update c args w
           = IcnsFile_write c icns (or_else (output' args) (file' args)) (has_toc icns0) w
       \<and> (fs w (or_else (output' args) (file' args)) \<noteq> Some Dir \<longrightarrow>
            cli_update c args w =
              Returned (w\<lparr>fs := (fs w)(or_else (output' args) (file' args) \<mapsto>
                          File (serialize c icns (has_toc icns0)))\<rparr>))"
proof -
  have t: "has_toc icns = has_toc icns0"
    using assms(2) by (rule update_media_has_toc)
  have "cli_update c args w
           = IcnsFile_write c icns (or_else (output' args) (file' args)) (has_toc icns0) w"
    using assms t by (auto simp: cli_update_def)
  then show ?thesis
    using t by (simp add: IcnsFile_write_ok)
qed

theorem cli_update_keeps_toc_witness:
  "cli_update toy_core
      \<lparr>file' = ''a.icns'', output' = Some ''b.icns'', rm = Some [''icp4''], set' = None\<rparr> toy_world
     = Returned (toy_world\<lparr>fs := toy_fs(''b.icns'' \<mapsto> File [1, 20])\<rparr>)
   \<and> cli_update toy_core
      \<lparr>file' = ''plain.icns'', output' = None, rm = None, set' = Some [''icp5=x.png'']\<rparr> toy_world
     = Returned (toy_world\<lparr>fs := toy_fs(''plain.icns'' \<mapsto> File [0, 30, 0, 7])\<rparr>)"
proof -
  have m1: "update_media toy_core toy_fs
      \<lparr>file' = ''a.icns'', output' = Some ''b.icns'', rm = Some [''icp4''], set' = None\<rparr> toy_archive
      = Inr (toy_archive\<lparr>entries := [(''icp5'', [20])]\<rparr>, True)"
    by (simp add: update_media_def or_empty_def toy_key_from_readable remove_media_def tags_def
        toy_archive_def)
  have m2: "update_media toy_core toy_fs
      \<lparr>file' = ''plain.icns'', output' = None, rm = None, set' = Some [''icp5=x.png'']\<rparr> plain_archive
      = Inr (plain_archive\<lparr>entries := [(''icp4'', [30]), (''icp5'', [0, 7])]\<rparr>, True)"
    by (simp add: update_media_def or_empty_def toy_key_from_readable tags_def
        plain_archive_def path_isfile_def add_media_def read_file_def toy_fs_def toy_core_def
        toy_resolve_def)
  have free: "toy_fs ''b.icns'' \<noteq> Some Dir" "toy_fs ''plain.icns'' \<noteq> Some Dir"
    by (simp_all add: toy_fs_def)
  have ser: "serialize toy_core (toy_archive\<lparr>entries := [(''icp5'', [20])]\<rparr>) True = [1, 20]"
    "serialize toy_core (plain_archive\<lparr>entries := [(''icp4'', [30]), (''icp5'', [0, 7])]\<rparr>) False
       = [0, 30, 0, 7]"
    by (simp_all add: toy_core_def toy_serialize_def)
  have t: "has_toc toy_archive" "\<not> has_toc plain_archive"
    by (simp_all add: has_toc_def toy_archive_def plain_archive_def)
  show ?thesis
    using cli_update_keeps_toc [of toy_core toy_world
        "\<lparr>file' = ''a.icns'', output' = Some ''b.icns'', rm = Some [''icp4''], set' = None\<rparr>"
        toy_archive "toy_archive\<lparr>entries := [(''icp5'', [20])]\<rparr>" True]
      cli_update_keeps_toc [of toy_core toy_world
        "\<lparr>file' = ''plain.icns'', output' = None, rm = None, set' = Some [''icp5=x.png'']\<rparr>"
        plain_archive "plain_archive\<lparr>entries := [(''icp4'', [30]), (''icp5'', [0, 7])]\<rparr>" True]
      m1 m2 free ser t toy_IcnsFile
    by (simp add: toy_world_fields or_else_def IcnsFile_write_ok)
qed

subsection \<open>\<^verbatim>\<open>cli_update\<close>: nothing to do\<close>

lemma update_rm_loop_absent:
  assumes "\<forall>x\<in>set xs. \<exists>k. key_from_readable c x = Inr k \<and> k \<notin> set (tags icns)"
  shows "update_rm_loop c xs icns ch = Inr (icns, ch)"
  using assms by (induction xs) (auto simp: remove_media_def)

text \<open>
  Claim C7. With no \<^verbatim>\<open>-set\<close> argument, no \<^verbatim>\<open>--output\<close> option, and every
  \<^verbatim>\<open>-rm\<close> key naming a tag that the archive read from the file does not hold,
  \<^verbatim>\<open>cli_update\<close> returns with the world exactly as before: nothing is written.
\<close>

theorem cli_update_nothing_to_do:
  assumes "set' args = None" and "output' args = None"
    and "IcnsFile c (fs w) (file' args) = Inr icns0"
    and "\<forall>x\<in>set (or_empty (rm args)). \<exists>k. key_from_readable c x = Inr k \<and> k \<notin> set (tags icns0)"
  shows "cli_update c args w = Returned w"
  using assms update_rm_loop_absent [of "or_empty (rm args)" c icns0 False]
  by (simp add: cli_update_def update_media_def or_empty_def truthy_def)

theorem cli_update_nothing_to_do_witness:
  "cli_update toy_core
      \<lparr>file' = ''a.icns'', output' = None, rm = Some [''icp6'', ''dark''], set' = None\<rparr> toy_world
     = Returned toy_world"
proof -
  have absent: "''icp6'' \<notin> set (tags toy_archive)" "''dark'' \<notin> set (tags toy_archive)"
    by (simp_all add: tags_def toy_archive_def)
  show ?thesis
    using cli_update_nothing_to_do [of
        "\<lparr>file' = ''a.icns'', output' = None, rm = Some [''icp6'', ''dark''], set' = None\<rparr>"
        toy_core toy_world toy_archive]
      absent toy_IcnsFile
    by (simp add: toy_world_fields or_empty_def toy_key_from_readable)
qed

end
